theory Spec2Isabelle
  imports Main "HOL-Library.Sublist"
begin

section \<open>Strings of the host language\<close>

text \<open>
  A string of the page is modelled as a \<^typ>\<open>string\<close>: the list of its UTF-8 bytes.
  The separators and markers the page searches for are ASCII, so \<open>includes\<close> and
  \<open>split\<close> on the bytes agree with the host's methods on code units.
\<close>

fun js_includes :: "string \<Rightarrow> string \<Rightarrow> bool" where
  "js_includes [] sub = (sub = [])"
| "js_includes (c # cs) sub = (prefix sub (c # cs) \<or> js_includes cs sub)"

text \<open>
  \<open>s.split(sep)\<close> for a non-empty separator: the pieces between the occurrences of
  \<open>sep\<close>, scanned from the left; the result is never empty.
\<close>

function split_from :: "string \<Rightarrow> string \<Rightarrow> string \<Rightarrow> string list" where
  "split_from sep acc [] = [rev acc]"
| "split_from sep acc (c # cs) =
     (if sep \<noteq> [] \<and> prefix sep (c # cs)
      then rev acc # split_from sep [] (drop (length sep) (c # cs))
      else split_from sep (c # acc) cs)"
  by pat_completeness auto
termination
  by (relation "measure (\<lambda>(sep, acc, s). length s)") (auto simp: neq_Nil_conv)

definition js_split :: "string \<Rightarrow> string \<Rightarrow> string list" where
  "js_split s sep = split_from sep [] s"

section \<open>The host platform\<close>

text \<open>
  The page calls the URL class of the host runtime (\<open>new URL\<close>, \<open>hostname\<close>,
  \<open>pathname\<close>, \<open>searchParams.set\<close>, \<open>toString\<close>), \<open>decodeURIComponent\<close>,
  \<open>toLowerCase\<close> and the conversion of a number to a string. None of them is code of the
  page, so the page's functions take them as a parameter: \<open>'u\<close> is the type of a parsed
  URL object, \<open>None\<close> stands for the exception the call throws.
\<close>

record 'u platform =
  newURL :: "string \<Rightarrow> 'u option"
  hostname :: "'u \<Rightarrow> string"
  pathname :: "'u \<Rightarrow> string"
  searchParams_set :: "string \<Rightarrow> string \<Rightarrow> 'u \<Rightarrow> 'u"
  toString :: "'u \<Rightarrow> string"
  decodeURIComponent :: "string \<Rightarrow> string option"
  toLowerCase :: "string \<Rightarrow> string"
  String_of :: "int \<Rightarrow> string"

datatype exn = TypeError | URIError | DOMException

section \<open>URL sizing and source expansion\<close>

text \<open>\<open>smartUrlSizing\<close> of \<open>src/CaresseInvite.tsx\<close>.\<close>

definition smartUrlSizing :: "'u platform \<Rightarrow> string \<Rightarrow> int \<Rightarrow> string" where
  "smartUrlSizing P url wid =
     (case newURL P url of
        None \<Rightarrow> url
      | Some u \<Rightarrow>
          if \<not> js_includes (hostname P u) ''cache.marriott.com'' then url
          else if js_includes (pathname P u) ''/is/image/'' then
            toString P
              (searchParams_set P ''fit'' ''constrain''
                (searchParams_set P ''wid'' (String_of P wid) u))
          else if js_includes (pathname P u) ''/content/dam/marriott-renditions/'' then
            toString P
              (searchParams_set P ''interpolation'' ''progressive-bilinear''
                (searchParams_set P ''output-quality'' ''86''
                  (searchParams_set P ''downsize'' (String_of P wid @ ''px:*'') u)))
          else url)"

text \<open>\<open>withMarriottSizing\<close> of the second page variant.\<close>

definition withMarriottSizing :: "'u platform \<Rightarrow> string \<Rightarrow> int \<Rightarrow> string" where
  "withMarriottSizing P url wid =
     (case newURL P url of
        None \<Rightarrow> url
      | Some u \<Rightarrow>
          if js_includes (hostname P u) ''cache.marriott.com''
             \<and> js_includes (pathname P u) ''/is/image/'' then
            toString P
              (searchParams_set P ''fit'' ''constrain''
                (searchParams_set P ''wid'' (String_of P wid) u))
          else if js_includes (hostname P u) ''cache.marriott.com''
             \<and> js_includes (pathname P u) ''/content/dam/marriott-renditions/'' then
            toString P
              (searchParams_set P ''interpolation'' ''progressive-bilinear''
                (searchParams_set P ''output-quality'' ''86''
                  (searchParams_set P ''downsize'' (String_of P wid @ ''px:*'') u)))
          else url)"

text \<open>
  \<open>const push = (u) => u && s.add(u)\<close> on an insertion-ordered \<open>Set\<close>: the empty string
  is falsy and is not added; a string already in the set keeps its first position.
\<close>

definition push :: "string list \<Rightarrow> string \<Rightarrow> string list" where
  "push s u = (if u \<noteq> [] \<and> u \<notin> set s then s @ [u] else s)"

definition expandSources :: "'u platform \<Rightarrow> string \<Rightarrow> string list" where
  "expandSources P primary =
     (let s0 = [];
          s1 = push s0 (smartUrlSizing P primary 2200);
          s2 = push s1 (smartUrlSizing P primary 1800);
          s3 = push s2 (smartUrlSizing P primary 1400);
          s4 = push s3 (smartUrlSizing P primary 1100);
          s5 = push s4 (smartUrlSizing P primary 900);
          s6 = push s5 primary
      in s6)"

text \<open>\<open>expandSources\<close> of the second page variant: four widths.\<close>

definition expandSources_v2 :: "'u platform \<Rightarrow> string \<Rightarrow> string list" where
  "expandSources_v2 P primary =
     (let s0 = [];
          s1 = push s0 (withMarriottSizing P primary 2000);
          s2 = push s1 (withMarriottSizing P primary 1600);
          s3 = push s2 (withMarriottSizing P primary 1200);
          s4 = push s3 (withMarriottSizing P primary 900);
          s5 = push s4 primary
      in s5)"

section \<open>Photo keys\<close>

text \<open>
  The body of the \<open>try\<close> block of \<open>photoKeyFromUrl\<close> (the same in both variants): it
  throws when the URL does not parse or the path has a malformed escape.
\<close>

definition photoKeyFromUrl_try :: "'u platform \<Rightarrow> string \<Rightarrow> exn + string" where
  "photoKeyFromUrl_try P url =
     (case newURL P url of
        None \<Rightarrow> Inl TypeError
      | Some u \<Rightarrow>
          (case decodeURIComponent P (pathname P u) of
             None \<Rightarrow> Inl URIError
           | Some d \<Rightarrow>
               (let path = toLowerCase P d in
                if js_includes path ''/is/image/'' then
                  (let file = (case js_split path ''/is/image/'' of
                                 _ # f # _ \<Rightarrow> f | _ \<Rightarrow> path);
                       tail = (case js_split file ''/'' of
                                 [] \<Rightarrow> file | ps \<Rightarrow> last ps)
                   in Inr (hd (js_split (hd (js_split tail '':'')) ''?'')))
                else if js_includes path ''/content/dam/'' then
                  (let tail = (case js_split path ''/'' of
                                 [] \<Rightarrow> path | ps \<Rightarrow> last ps)
                   in Inr (hd (js_split tail ''?'')))
                else Inr (hostname P u @ path))))"

text \<open>The \<open>catch\<close> block: whatever was thrown, the text before the first \<open>?\<close>, lower-cased.\<close>

definition photoKeyFromUrl :: "'u platform \<Rightarrow> string \<Rightarrow> string" where
  "photoKeyFromUrl P url =
     (case photoKeyFromUrl_try P url of
        Inr k \<Rightarrow> k
      | Inl e \<Rightarrow> toLowerCase P (hd (js_split url ''?'')))"

section \<open>The photo catalog\<close>

record raw_photo =
  raw_id :: string
  raw_title :: string
  raw_tag :: string
  primary :: string

record Photo =
  photo_id :: string
  title :: string
  tag :: "string option"
  sources :: "string list"

text \<open>\<open>raw.map(...)\<close>, with the variant's \<open>expandSources\<close> as \<open>expand\<close>.\<close>

definition built :: "(string \<Rightarrow> string list) \<Rightarrow> raw_photo list \<Rightarrow> Photo list" where
  "built expand rs =
     map (\<lambda>r. \<lparr>photo_id = raw_id r, title = raw_title r, tag = Some (raw_tag r),
                 sources = expand (primary r)\<rparr>) rs"

text \<open>\<open>photoKeyFromUrl(p.sources[0] ?? p.id)\<close>.\<close>

definition photo_key :: "'u platform \<Rightarrow> Photo \<Rightarrow> string" where
  "photo_key P p = photoKeyFromUrl P (case sources p of [] \<Rightarrow> photo_id p | s # ss \<Rightarrow> s)"

text \<open>The \<open>for (const p of built)\<close> loop with its \<open>seen\<close> set and its \<open>out\<close> array.\<close>

fun photos_loop :: "'u platform \<Rightarrow> string set \<Rightarrow> Photo list \<Rightarrow> Photo list \<Rightarrow> Photo list" where
  "photos_loop P seen out [] = out"
| "photos_loop P seen out (p # ps) =
     (let key = photo_key P p in
      if key = [] \<or> key \<in> seen then photos_loop P seen out ps
      else photos_loop P (insert key seen) (out @ [p]) ps)"

definition photos :: "'u platform \<Rightarrow> raw_photo list \<Rightarrow> Photo list" where
  "photos P rs = photos_loop P {} [] (built (expandSources P) rs)"

definition photos_v2 :: "'u platform \<Rightarrow> raw_photo list \<Rightarrow> Photo list" where
  "photos_v2 P rs = photos_loop P {} [] (built (expandSources_v2 P) rs)"

text \<open>The records of the two variants; \<open>bullet\<close> is the character U+2022 of the tags.\<close>

definition bullet :: string where
  "bullet = [CHR 0xE2, CHR 0x80, CHR 0xA2]"

definition raw :: "raw_photo list" where
  "raw =
     [\<lparr>raw_id = ''drone-bay-1'', raw_title = ''The private bay: Caresse from above'',
       raw_tag = ''Aerial '' @ bullet @ '' Bay'',
       primary = ''https://cache.marriott.com/is/image/marriotts7prod/lc-bjvlc-drone-view-23060%3AWide-Hor''\<rparr>,
      \<lparr>raw_id = ''drone-resort-2'', raw_title = ''Aegean shoreline panorama'',
       raw_tag = ''Aerial '' @ bullet @ '' Panorama'',
       primary = ''https://cache.marriott.com/is/image/marriotts7prod/lc-bjvlc-drone-view-37065%3AWide-Hor''\<rparr>,
      \<lparr>raw_id = ''hotel-exterior'', raw_title = ''Resort exterior'',
       raw_tag = ''Resort'',
       primary = ''https://cache.marriott.com/is/image/marriotts7prod/lc-bjvlc-hotel-exterior-11389%3AWide-Hor''\<rparr>,
      \<lparr>raw_id = ''beach-hero'', raw_title = ''Turquoise beach day'',
       raw_tag = ''Beach'',
       primary = ''https://cache.marriott.com/content/dam/marriott-renditions/BJVLC/bjvlc-caresse-beach-6997-hor-wide.jpg''\<rparr>,
      \<lparr>raw_id = ''private-beach'', raw_title = ''Private beach & teak decks'',
       raw_tag = ''Beach '' @ bullet @ '' Deck'',
       primary = ''https://cache.marriott.com/content/dam/marriott-renditions/BJVLC/bjvlc-private-beach-9546-hor-wide.jpg''\<rparr>,
      \<lparr>raw_id = ''cabanas'', raw_title = ''Cabanas & daybeds'',
       raw_tag = ''Beach '' @ bullet @ '' Cabanas'',
       primary = ''https://cache.marriott.com/content/dam/marriott-renditions/BJVLC/bjvlc-cabanas-9527-hor-wide.jpg''\<rparr>,
      \<lparr>raw_id = ''pool-main'', raw_title = ''Infinity pool above the shoreline'',
       raw_tag = ''Pool'',
       primary = ''https://cache.marriott.com/content/dam/marriott-renditions/BJVLC/bjvlc-pool-9526-hor-wide.jpg''\<rparr>,
      \<lparr>raw_id = ''sunset-lounge'', raw_title = ''Sunset Lounge'',
       raw_tag = ''Sunset'',
       primary = ''https://cache.marriott.com/content/dam/marriott-renditions/BJVLC/bjvlc-sunset-lounge-9529-hor-wide.jpg''\<rparr>,
      \<lparr>raw_id = ''glass-restaurant'', raw_title = ''Glass Restaurant terrace'',
       raw_tag = ''Dining'',
       primary = ''https://cache.marriott.com/content/dam/marriott-renditions/BJVLC/bjvlc-glass-restaurant-9570-hor-wide.jpg''\<rparr>,
      \<lparr>raw_id = ''buddha-bar'', raw_title = ''Buddha-Bar Beach Bodrum'',
       raw_tag = ''Beach Club'',
       primary = ''https://cache.marriott.com/content/dam/marriott-renditions/BJVLC/bjvlc-buddha-restaurant-1797-hor-wide.jpg''\<rparr>,
      \<lparr>raw_id = ''spa'', raw_title = ''Spa Caresse'',
       raw_tag = ''Wellness'',
       primary = ''https://cache.marriott.com/content/dam/marriott-renditions/BJVLC/bjvlc-spa-caresse-9616-hor-wide.jpg''\<rparr>,
      \<lparr>raw_id = ''indoor-pool'', raw_title = ''Indoor pool'',
       raw_tag = ''Wellness'',
       primary = ''https://cache.marriott.com/is/image/marriotts7prod/bjvlc-indoor-pool-9613%3AWide-Hor''\<rparr>]"

definition raw_v2 :: "raw_photo list" where
  "raw_v2 =
     [\<lparr>raw_id = ''drone-bay-1'', raw_title = ''The private bay: Caresse from above'',
       raw_tag = ''Aerial '' @ bullet @ '' Bay'',
       primary = ''https://cache.marriott.com/is/image/marriotts7prod/lc-bjvlc-drone-view-23060%3AWide-Hor''\<rparr>,
      \<lparr>raw_id = ''drone-resort-2'', raw_title = ''Aegean shoreline panorama'',
       raw_tag = ''Aerial '' @ bullet @ '' Panorama'',
       primary = ''https://cache.marriott.com/is/image/marriotts7prod/lc-bjvlc-drone-view-37065%3AWide-Hor''\<rparr>,
      \<lparr>raw_id = ''hotel-exterior'', raw_title = ''Resort exterior'',
       raw_tag = ''Resort'',
       primary = ''https://cache.marriott.com/is/image/marriotts7prod/lc-bjvlc-hotel-exterior-11389%3AWide-Hor''\<rparr>,
      \<lparr>raw_id = ''beach-hero'', raw_title = ''Turquoise beach day'',
       raw_tag = ''Beach'',
       primary = ''https://cache.marriott.com/content/dam/marriott-renditions/BJVLC/bjvlc-caresse-beach-6997-hor-wide.jpg''\<rparr>,
      \<lparr>raw_id = ''private-beach'', raw_title = ''Private beach & teak decks'',
       raw_tag = ''Beach '' @ bullet @ '' Deck'',
       primary = ''https://cache.marriott.com/content/dam/marriott-renditions/BJVLC/bjvlc-private-beach-9546-hor-wide.jpg''\<rparr>,
      \<lparr>raw_id = ''deck-wide'', raw_title = ''Signature decks on the waterline'',
       raw_tag = ''Deck'',
       primary = ''https://cache.marriott.com/is/image/marriotts7prod/lc-bjvlc-deck-35144%3AWide-Hor''\<rparr>,
      \<lparr>raw_id = ''cabanas'', raw_title = ''Cabanas & daybeds'',
       raw_tag = ''Beach '' @ bullet @ '' Cabanas'',
       primary = ''https://cache.marriott.com/content/dam/marriott-renditions/BJVLC/bjvlc-cabanas-9527-hor-wide.jpg''\<rparr>,
      \<lparr>raw_id = ''pool-main'', raw_title = ''Infinity pool above the shoreline'',
       raw_tag = ''Pool'',
       primary = ''https://cache.marriott.com/content/dam/marriott-renditions/BJVLC/bjvlc-pool-9526-hor-wide.jpg''\<rparr>,
      \<lparr>raw_id = ''pool-alt-1'', raw_title = ''Poolline with bay views'',
       raw_tag = ''Pool'',
       primary = ''https://cache.marriott.com/is/image/marriotts7prod/lc-bjvlc-pool-28022%3AWide-Hor''\<rparr>,
      \<lparr>raw_id = ''sunset-lounge'', raw_title = ''Sunset Lounge'',
       raw_tag = ''Sunset'',
       primary = ''https://cache.marriott.com/content/dam/marriott-renditions/BJVLC/bjvlc-sunset-lounge-9529-hor-wide.jpg''\<rparr>,
      \<lparr>raw_id = ''glass-restaurant'', raw_title = ''Glass Restaurant terrace'',
       raw_tag = ''Dining'',
       primary = ''https://cache.marriott.com/content/dam/marriott-renditions/BJVLC/bjvlc-glass-restaurant-9570-hor-wide.jpg''\<rparr>,
      \<lparr>raw_id = ''glass-lounge'', raw_title = ''Glass Lounge'',
       raw_tag = ''Cocktails'',
       primary = ''https://cache.marriott.com/is/image/marriotts7prod/lc-bjvlc-glass-lounge-27060%3AWide-Hor''\<rparr>,
      \<lparr>raw_id = ''buddha-bar'', raw_title = ''Buddha-Bar Beach Bodrum'',
       raw_tag = ''Beach Club'',
       primary = ''https://cache.marriott.com/content/dam/marriott-renditions/BJVLC/bjvlc-buddha-restaurant-1797-hor-wide.jpg''\<rparr>,
      \<lparr>raw_id = ''la-zucca'', raw_title = ''La Zucca Pizza Bar'',
       raw_tag = ''Dining'',
       primary = ''https://cache.marriott.com/is/image/marriotts7prod/lc-bjvlc-la-zucca-pizza-bar-38504%3AWide-Hor''\<rparr>,
      \<lparr>raw_id = ''spa'', raw_title = ''Spa Caresse'',
       raw_tag = ''Wellness'',
       primary = ''https://cache.marriott.com/content/dam/marriott-renditions/BJVLC/bjvlc-spa-caresse-9616-hor-wide.jpg''\<rparr>,
      \<lparr>raw_id = ''spa-hot-tub'', raw_title = ''Spa outdoor hot tub'',
       raw_tag = ''Wellness'',
       primary = ''https://cache.marriott.com/content/dam/marriott-renditions/BJVLC/bjvlc-spa-caresse-9610-hor-wide.jpg''\<rparr>,
      \<lparr>raw_id = ''indoor-pool'', raw_title = ''Indoor pool'',
       raw_tag = ''Wellness'',
       primary = ''https://cache.marriott.com/is/image/marriotts7prod/bjvlc-indoor-pool-9613%3AWide-Hor''\<rparr>]"

section \<open>The image with fallbacks\<close>

text \<open>
  \<open>SmartImage\<close> keeps a cursor \<open>i\<close>, \<open>0\<close> when mounted. What it shows is the source under
  the cursor, or the placeholder generated from the alternative text.
\<close>

datatype shown = Source string | Placeholder string

definition SmartImage_src :: "string list \<Rightarrow> string \<Rightarrow> nat \<Rightarrow> shown" where
  "SmartImage_src srcs alt i = (if i < length srcs then Source (srcs ! i) else Placeholder alt)"

text \<open>The \<open>onError\<close> handler: \<open>setI((v) => (v + 1 <= sources.length ? v + 1 : v))\<close>.\<close>

definition onError :: "string list \<Rightarrow> nat \<Rightarrow> nat" where
  "onError srcs v = (if v + 1 \<le> length srcs then v + 1 else v)"

text \<open>The cursor after \<open>k\<close> load failures of one mounted image.\<close>

definition after_failures :: "string list \<Rightarrow> nat \<Rightarrow> nat" where
  "after_failures srcs k = (onError srcs ^^ k) 0"

section \<open>Gallery and lightbox\<close>

text \<open>
  Numbers of the page that can leave the integers: \<open>x % 0\<close> is \<open>NaN\<close>, and \<open>NaN\<close> stays
  \<open>NaN\<close> under the arithmetic of \<open>prev\<close> and \<open>next\<close>. \<open>rem\<close> is the remainder of \<open>%\<close>,
  which takes the sign of the dividend.
\<close>

datatype number = Num int | NaN

definition rem :: "int \<Rightarrow> int \<Rightarrow> number" where
  "rem a b = (if b = 0 then NaN else Num (sgn a * (\<bar>a\<bar> mod \<bar>b\<bar>)))"

record gallery =
  visibleCount :: int
  lightboxIndex :: "number option"

definition initial :: gallery where
  "initial = \<lparr>visibleCount = 12, lightboxIndex = None\<rparr>"

definition slice :: "nat \<Rightarrow> nat \<Rightarrow> 'a list \<Rightarrow> 'a list" where
  "slice a b xs = take (b - a) (drop a xs)"

text \<open>\<open>photos.slice(0, Math.min(visibleCount, photos.length))\<close>.\<close>

definition visiblePhotos :: "'a list \<Rightarrow> gallery \<Rightarrow> 'a list" where
  "visiblePhotos ps g = slice 0 (nat (min (visibleCount g) (int (length ps)))) ps"

definition close :: "gallery \<Rightarrow> gallery" where
  "close g = g\<lparr>lightboxIndex := None\<rparr>"

definition prev :: "'a list \<Rightarrow> gallery \<Rightarrow> gallery" where
  "prev ps g =
     g\<lparr>lightboxIndex :=
         (case lightboxIndex g of
            None \<Rightarrow> None
          | Some NaN \<Rightarrow> Some NaN
          | Some (Num i) \<Rightarrow>
              Some (rem (i - 1 + int (length (visiblePhotos ps g)))
                        (int (length (visiblePhotos ps g)))))\<rparr>"

definition "next" :: "'a list \<Rightarrow> gallery \<Rightarrow> gallery" where
  "next ps g =
     g\<lparr>lightboxIndex :=
         (case lightboxIndex g of
            None \<Rightarrow> None
          | Some NaN \<Rightarrow> Some NaN
          | Some (Num i) \<Rightarrow> Some (rem (i + 1) (int (length (visiblePhotos ps g)))))\<rparr>"

text \<open>\<open>setVisibleCount((v) => Math.min(v + 12, photos.length))\<close>.\<close>

definition loadMore :: "'a list \<Rightarrow> gallery \<Rightarrow> gallery" where
  "loadMore ps g = g\<lparr>visibleCount := min (visibleCount g + 12) (int (length ps))\<rparr>"

definition setLightboxIndex :: "int \<Rightarrow> gallery \<Rightarrow> gallery" where
  "setLightboxIndex i g = g\<lparr>lightboxIndex := Some (Num i)\<rparr>"

text \<open>
  The events of the gallery, each with the control that raises it: a thumbnail of the
  grid (one per visible photo), a thumbnail of the strip \<open>visiblePhotos.slice(2, 5)\<close>,
  the load-more button (rendered while \<open>visibleCount < photos.length\<close>), and the close,
  previous and next controls and keys of the lightbox (mounted while \<open>lightboxIndex\<close> is
  not \<open>null\<close>). An event whose control is not rendered cannot happen: \<open>fire\<close> leaves
  the state as it is.
\<close>

datatype event =
  ClickThumbnail nat | ClickFeatured nat | ClickLoadMore | Close | Prev | Next

definition loadMore_offered :: "'a list \<Rightarrow> gallery \<Rightarrow> bool" where
  "loadMore_offered ps g = (visibleCount g < int (length ps))"

fun fire :: "'a list \<Rightarrow> gallery \<Rightarrow> event \<Rightarrow> gallery" where
  "fire ps g (ClickThumbnail i) =
     (if i < length (visiblePhotos ps g) then setLightboxIndex (int i) g else g)"
| "fire ps g (ClickFeatured i) =
     (if i < length (slice 2 5 (visiblePhotos ps g)) then setLightboxIndex (int i + 2) g else g)"
| "fire ps g ClickLoadMore = (if loadMore_offered ps g then loadMore ps g else g)"
| "fire ps g Close = (if lightboxIndex g \<noteq> None then close g else g)"
| "fire ps g Prev = (if lightboxIndex g \<noteq> None then prev ps g else g)"
| "fire ps g Next = (if lightboxIndex g \<noteq> None then next ps g else g)"

definition run :: "'a list \<Rightarrow> event list \<Rightarrow> gallery" where
  "run ps evs = foldl (fire ps) initial evs"

text \<open>
  The index of the lightbox, when there is one, is an index into the visible slice.
\<close>

definition lightbox_valid :: "'a list \<Rightarrow> gallery \<Rightarrow> bool" where
  "lightbox_valid ps g =
     (case lightboxIndex g of
        None \<Rightarrow> True
      | Some NaN \<Rightarrow> False
      | Some (Num i) \<Rightarrow> 0 \<le> i \<and> i < int (length (visiblePhotos ps g)))"

section \<open>The language preference\<close>

datatype Lang = En | Fa

fun lang_string :: "Lang \<Rightarrow> string" where
  "lang_string En = ''en''"
| "lang_string Fa = ''fa''"

text \<open>
  \<open>window.localStorage\<close> is a capability of the host: \<open>getItem\<close> and \<open>setItem\<close> return
  or throw, and may change the store \<open>'s\<close> either way.
\<close>

record 's storage =
  getItem :: "string \<Rightarrow> 's \<Rightarrow> (exn + string option) \<times> 's"
  setItem :: "string \<Rightarrow> string \<Rightarrow> 's \<Rightarrow> (exn + unit) \<times> 's"

record 's page =
  lang :: Lang
  store :: 's

text \<open>
  The first effect: \<open>try { saved = getItem("wedding_lang"); if (saved === "fa" || saved
  === "en") setLang(saved) } catch { }\<close>. It returns the language to set, if any, and
  the store.
\<close>

definition read_effect :: "'s storage \<Rightarrow> 's \<Rightarrow> Lang option \<times> 's" where
  "read_effect S s =
     (case getItem S ''wedding_lang'' s of
        (Inl e, s') \<Rightarrow> (None, s')
      | (Inr saved, s') \<Rightarrow>
          (if saved = Some ''fa'' then Some Fa
           else if saved = Some ''en'' then Some En
           else None, s'))"

text \<open>The second effect: \<open>try { setItem("wedding_lang", lang) } catch { }\<close>.\<close>

definition write_effect :: "'s storage \<Rightarrow> Lang \<Rightarrow> 's \<Rightarrow> 's" where
  "write_effect S l s = snd (setItem S ''wedding_lang'' (lang_string l) s)"

text \<open>
  Mounting the page: the state starts at \<open>"en"\<close>; both effects run once, in their order,
  the second with the language of that render; if the first one changed the language,
  the page renders again and the second effect, which depends on \<open>lang\<close>, runs again.
\<close>

definition mount :: "'s storage \<Rightarrow> 's \<Rightarrow> 's page" where
  "mount S s =
     (let (saved, s1) = read_effect S s;
          s2 = write_effect S En s1
      in case saved of
           None \<Rightarrow> \<lparr>lang = En, store = s2\<rparr>
         | Some l \<Rightarrow> if l = En then \<lparr>lang = En, store = s2\<rparr>
                      else \<lparr>lang = l, store = write_effect S l s2\<rparr>)"

text \<open>\<open>setLang(l)\<close> after the mount: a change of \<open>lang\<close> runs the second effect.\<close>

definition setLang :: "'s storage \<Rightarrow> Lang \<Rightarrow> 's page \<Rightarrow> 's page" where
  "setLang S l p = (if l = lang p then p else \<lparr>lang = l, store = write_effect S l (store p)\<rparr>)"

text \<open>The toggle of the navigation bar: \<open>setLang(lang === "en" ? "fa" : "en")\<close>.\<close>

definition toggle :: "'s storage \<Rightarrow> 's page \<Rightarrow> 's page" where
  "toggle S p = setLang S (if lang p = En then Fa else En) p"

text \<open>
  A store for the evaluations: the items, whether access is denied (every call throws),
  and the log of the calls made.
\<close>

datatype call = GetItem string | SetItem string string

record local_storage =
  items :: "(string \<times> string) list"
  denied :: bool
  calls :: "call list"

definition localStorage :: "local_storage storage" where
  "localStorage =
     \<lparr>getItem = (\<lambda>k s.
          (if denied s then Inl DOMException else Inr (map_of (items s) k),
           s\<lparr>calls := calls s @ [GetItem k]\<rparr>)),
       setItem = (\<lambda>k v s.
          if denied s then (Inl DOMException, s\<lparr>calls := calls s @ [SetItem k v]\<rparr>)
          else (Inr (), s\<lparr>items := (k, v) # items s, calls := calls s @ [SetItem k v]\<rparr>))\<rparr>"

section \<open>A model of the host platform on http(s) URLs\<close>

text \<open>
  The closed evaluations of this development run the page on \<open>js\<close>, a model of the URL
  Standard's parser and serializer, of \<open>URLSearchParams\<close> and of ECMAScript's
  \<open>decodeURIComponent\<close>, for absolute \<open>http\<close> and \<open>https\<close> URLs whose authority is a
  plain ASCII domain with an optional port. The model answers \<open>None\<close> (a thrown
  \<open>TypeError\<close>) for what the Standard rejects and also for what it does not cover: other
  schemes, credentials, IP addresses, percent-escapes and non-ASCII in the host, \<open>xn--\<close>
  labels. Case mapping is done on ASCII letters only, and the bytes a query escape decodes
  to are kept as they are. The theorems below that speak of every platform do not depend
  on it.
\<close>

definition code :: "char \<Rightarrow> nat" where
  "code c = of_char c"

definition is_upper :: "char \<Rightarrow> bool" where
  "is_upper c = (65 \<le> code c \<and> code c \<le> 90)"

definition is_alpha :: "char \<Rightarrow> bool" where
  "is_alpha c = (is_upper c \<or> 97 \<le> code c \<and> code c \<le> 122)"

definition is_digit :: "char \<Rightarrow> bool" where
  "is_digit c = (48 \<le> code c \<and> code c \<le> 57)"

definition is_hex :: "char \<Rightarrow> bool" where
  "is_hex c = (is_digit c \<or> 65 \<le> code c \<and> code c \<le> 70 \<or> 97 \<le> code c \<and> code c \<le> 102)"

definition lower_char :: "char \<Rightarrow> char" where
  "lower_char c = (if is_upper c then char_of (code c + 32) else c)"

definition ascii_lower :: "string \<Rightarrow> string" where
  "ascii_lower s = map lower_char s"

definition hex_val :: "char \<Rightarrow> nat" where
  "hex_val c =
     (if is_digit c then code c - 48
      else if 97 \<le> code c then code c - 87
      else code c - 55)"

definition percent_byte :: "char \<Rightarrow> string" where
  "percent_byte c =
     [CHR ''%'', ''0123456789ABCDEF'' ! (code c div 16), ''0123456789ABCDEF'' ! (code c mod 16)]"

definition c0_control :: "char \<Rightarrow> bool" where
  "c0_control c = (code c < 32 \<or> 126 < code c)"

definition fragment_set :: "char \<Rightarrow> bool" where
  "fragment_set c = (c0_control c \<or> c \<in> set [CHR '' '', CHR 0x22, CHR ''<'', CHR ''>'', CHR 0x60])"

definition query_set :: "char \<Rightarrow> bool" where
  "query_set c = (c0_control c \<or> c \<in> set [CHR '' '', CHR 0x22, CHR ''#'', CHR ''<'', CHR ''>''])"

definition special_query_set :: "char \<Rightarrow> bool" where
  "special_query_set c = (query_set c \<or> c = CHR 0x27)"

definition path_set :: "char \<Rightarrow> bool" where
  "path_set c = (query_set c \<or> c \<in> set [CHR ''?'', CHR ''^'', CHR 0x60, CHR ''{'', CHR ''}''])"

definition urlencoded_set :: "char \<Rightarrow> bool" where
  "urlencoded_set c = (\<not> (is_alpha c \<or> is_digit c \<or> c \<in> set ''*-._''))"

definition percent_encode :: "(char \<Rightarrow> bool) \<Rightarrow> string \<Rightarrow> string" where
  "percent_encode enc s = concat (map (\<lambda>c. if enc c then percent_byte c else [c]) s)"


record url =
  scheme :: string
  host :: string
  port :: "nat option"
  path :: "string list"
  query :: "string option"
  fragment :: "string option"

definition c0_or_space :: "char \<Rightarrow> bool" where
  "c0_or_space c = (code c \<le> 32)"

definition strip_input :: "string \<Rightarrow> string" where
  "strip_input s =
     filter (\<lambda>c. c \<notin> set [CHR 0x09, CHR 0x0A, CHR 0x0D])
       (rev (dropWhile c0_or_space (rev (dropWhile c0_or_space s))))"

definition scheme_char :: "char \<Rightarrow> bool" where
  "scheme_char c = (is_alpha c \<or> is_digit c \<or> c \<in> set ''+-.'')"

definition parse_scheme :: "string \<Rightarrow> (string \<times> string) option" where
  "parse_scheme s =
     (case s of
        [] \<Rightarrow> None
      | c # cs \<Rightarrow>
          if \<not> is_alpha c then None
          else (case dropWhile scheme_char cs of
                  [] \<Rightarrow> None
                | d # r \<Rightarrow>
                    if d = CHR '':'' then Some (ascii_lower (c # takeWhile scheme_char cs), r)
                    else None))"

definition default_port :: "string \<Rightarrow> nat option" where
  "default_port sch =
     (if sch = ''http'' then Some 80 else if sch = ''https'' then Some 443 else None)"

definition is_slash :: "char \<Rightarrow> bool" where
  "is_slash c = (c = CHR ''/'' \<or> c = CHR 0x5C)"

definition number_of :: "string \<Rightarrow> nat" where
  "number_of ds = foldl (\<lambda>n d. 10 * n + hex_val d) 0 ds"

definition ends_in_number :: "string \<Rightarrow> bool" where
  "ends_in_number h =
     (let parts = js_split h ''.'';
          parts' = (if last parts = [] then butlast parts else parts)
      in case parts' of
           [] \<Rightarrow> False
         | _ \<Rightarrow>
             (let l = last parts' in
              (l \<noteq> [] \<and> list_all is_digit l)
              \<or> ((prefix ''0x'' l \<or> prefix ''0X'' l) \<and> list_all is_hex (drop 2 l))))"

definition host_char :: "char \<Rightarrow> bool" where
  "host_char c = (is_alpha c \<or> is_digit c \<or> c \<in> set ''-.'')"

definition parse_host :: "string \<Rightarrow> string option" where
  "parse_host h =
     (let d = ascii_lower h in
      if d = [] \<or> \<not> list_all host_char d \<or> list_ex (prefix ''xn--'') (js_split d ''.'')
         \<or> ends_in_number d
      then None else Some d)"

definition parse_port :: "string \<Rightarrow> string \<Rightarrow> nat option option" where
  "parse_port sch p =
     (if \<not> list_all is_digit p then None
      else if p = [] then Some None
      else if 65535 < number_of p then None
      else if default_port sch = Some (number_of p) then Some None
      else Some (Some (number_of p)))"

definition single_dot :: "string \<Rightarrow> bool" where
  "single_dot b = (b \<in> set [''.'', ''%2e'', ''%2E''])"

definition double_dot :: "string \<Rightarrow> bool" where
  "double_dot b =
     (b \<in> set [''..'', ''.%2e'', ''.%2E'', ''%2e.'', ''%2E.'',
                ''%2e%2e'', ''%2e%2E'', ''%2E%2e'', ''%2E%2E''])"

fun split_segments :: "string \<Rightarrow> string \<Rightarrow> string list" where
  "split_segments acc [] = [rev acc]"
| "split_segments acc (c # cs) =
     (if is_slash c then rev acc # split_segments [] cs else split_segments (c # acc) cs)"

fun path_state :: "string list \<Rightarrow> string list \<Rightarrow> string list" where
  "path_state p [] = p"
| "path_state p [s] =
     (let b = percent_encode path_set s in
      if double_dot b then butlast p @ [[]]
      else if single_dot b then p @ [[]]
      else p @ [b])"
| "path_state p (s # ss) =
     (let b = percent_encode path_set s in
      path_state (if double_dot b then butlast p else if single_dot b then p else p @ [b]) ss)"

definition parse_path :: "string \<Rightarrow> string list" where
  "parse_path s =
     path_state [] (split_segments [] (case s of [] \<Rightarrow> [] | c # cs \<Rightarrow> if is_slash c then cs else c # cs))"

definition auth_end :: "char \<Rightarrow> bool" where
  "auth_end c = (is_slash c \<or> c = CHR ''?'' \<or> c = CHR ''#'')"

definition path_end :: "char \<Rightarrow> bool" where
  "path_end c = (c = CHR ''?'' \<or> c = CHR ''#'')"

definition url_parse :: "string \<Rightarrow> url option" where
  "url_parse input =
     (case parse_scheme (strip_input input) of
        None \<Rightarrow> None
      | Some (sch, r) \<Rightarrow>
          if sch \<notin> set [''http'', ''https''] then None
          else
            (let r1 = dropWhile is_slash r;
                 auth = takeWhile (\<lambda>c. \<not> auth_end c) r1;
                 r2 = dropWhile (\<lambda>c. \<not> auth_end c) r1;
                 h = takeWhile (\<lambda>c. c \<noteq> CHR '':'') auth;
                 p = drop (Suc (length h)) auth;
                 ps = takeWhile (\<lambda>c. \<not> path_end c) r2;
                 r3 = dropWhile (\<lambda>c. \<not> path_end c) r2;
                 q = (case r3 of
                        [] \<Rightarrow> None
                      | c # cs \<Rightarrow>
                          if c = CHR ''?''
                          then Some (percent_encode special_query_set
                                       (takeWhile (\<lambda>c. c \<noteq> CHR ''#'') cs))
                          else None);
                 f = (case dropWhile (\<lambda>c. c \<noteq> CHR ''#'') r3 of
                        [] \<Rightarrow> None
                      | c # cs \<Rightarrow> Some (percent_encode fragment_set cs))
             in if CHR ''@'' \<in> set auth then None
                else (case parse_host h of
                        None \<Rightarrow> None
                      | Some d \<Rightarrow>
                          (case parse_port sch p of
                             None \<Rightarrow> None
                           | Some pt \<Rightarrow>
                               Some \<lparr>scheme = sch, host = d, port = pt, path = parse_path ps,
                                     query = q, fragment = f\<rparr>))))"

definition url_pathname :: "url \<Rightarrow> string" where
  "url_pathname u = concat (map (\<lambda>s. CHR ''/'' # s) (path u))"

function digits :: "int \<Rightarrow> string" where
  "digits n =
     (if n < 10 then [''0123456789'' ! nat n]
      else digits (n div 10) @ [''0123456789'' ! nat (n mod 10)])"
  by pat_completeness auto
termination
  by (relation "measure nat") auto

declare digits.simps [simp del]

definition decimal :: "int \<Rightarrow> string" where
  "decimal w = (if w < 0 then CHR ''-'' # digits (- w) else digits w)"

definition url_toString :: "url \<Rightarrow> string" where
  "url_toString u =
     scheme u @ ''://'' @ host u
     @ (case port u of None \<Rightarrow> [] | Some n \<Rightarrow> CHR '':'' # digits (int n))
     @ url_pathname u
     @ (case query u of None \<Rightarrow> [] | Some q \<Rightarrow> CHR ''?'' # q)
     @ (case fragment u of None \<Rightarrow> [] | Some f \<Rightarrow> CHR ''#'' # f)"

fun percent_decode :: "string \<Rightarrow> string" where
  "percent_decode (c # a # b # cs) =
     (if c = CHR ''%'' \<and> is_hex a \<and> is_hex b
      then char_of (16 * hex_val a + hex_val b) # percent_decode cs
      else c # percent_decode (a # b # cs))"
| "percent_decode cs = cs"

definition form_decode :: "string \<Rightarrow> string" where
  "form_decode s = percent_decode (map (\<lambda>c. if c = CHR ''+'' then CHR '' '' else c) s)"

definition form_encode :: "string \<Rightarrow> string" where
  "form_encode s =
     concat (map (\<lambda>c. if c = CHR '' '' then ''+''
                       else if urlencoded_set c then percent_byte c else [c]) s)"

definition urlencoded_parse :: "string \<Rightarrow> (string \<times> string) list" where
  "urlencoded_parse q =
     map (\<lambda>s. (form_decode (takeWhile (\<lambda>c. c \<noteq> CHR ''='') s),
               form_decode (drop (Suc (length (takeWhile (\<lambda>c. c \<noteq> CHR ''='') s))) s)))
       (filter (\<lambda>s. s \<noteq> []) (js_split q ''&''))"

fun join_amp :: "string list \<Rightarrow> string" where
  "join_amp [] = []"
| "join_amp [s] = s"
| "join_amp (s # ss) = s @ CHR ''&'' # join_amp ss"

definition urlencoded_serialize :: "(string \<times> string) list \<Rightarrow> string" where
  "urlencoded_serialize ps =
     join_amp (map (\<lambda>(n, v). form_encode n @ CHR ''='' # form_encode v) ps)"

fun set_pair :: "string \<Rightarrow> string \<Rightarrow> (string \<times> string) list \<Rightarrow> (string \<times> string) list" where
  "set_pair k v [] = [(k, v)]"
| "set_pair k v ((n, x) # ps) =
     (if n = k then (k, v) # filter (\<lambda>(m, y). m \<noteq> k) ps else (n, x) # set_pair k v ps)"

definition url_searchParams_set :: "string \<Rightarrow> string \<Rightarrow> url \<Rightarrow> url" where
  "url_searchParams_set k v u =
     (let ser = urlencoded_serialize
                  (set_pair k v (urlencoded_parse (case query u of None \<Rightarrow> [] | Some q \<Rightarrow> q)))
      in u\<lparr>query := (if ser = [] then None else Some ser)\<rparr>)"

fun escapes :: "string \<Rightarrow> (bool \<times> char) list option" where
  "escapes [] = Some []"
| "escapes (c # cs) =
     (if c = CHR ''%'' then
        (case cs of
           a # b # r \<Rightarrow>
             if is_hex a \<and> is_hex b
             then map_option ((#) (True, char_of (16 * hex_val a + hex_val b))) (escapes r)
             else None
         | _ \<Rightarrow> None)
      else map_option ((#) (False, c)) (escapes cs))"

definition leading_ones :: "nat \<Rightarrow> nat" where
  "leading_ones b =
     (if b < 128 then 0 else if b < 192 then 1 else if b < 224 then 2
      else if b < 240 then 3 else if b < 248 then 4 else 5)"

definition cont :: "nat \<Rightarrow> bool" where
  "cont b = (128 \<le> b \<and> b \<le> 191)"

fun utf8_valid :: "nat list \<Rightarrow> bool" where
  "utf8_valid [a, b] = (194 \<le> a \<and> a \<le> 223 \<and> cont b)"
| "utf8_valid [a, b, c] =
     ((a = 224 \<and> 160 \<le> b \<and> b \<le> 191 \<or> 225 \<le> a \<and> a \<le> 236 \<and> cont b
       \<or> a = 237 \<and> 128 \<le> b \<and> b \<le> 159 \<or> 238 \<le> a \<and> a \<le> 239 \<and> cont b) \<and> cont c)"
| "utf8_valid [a, b, c, d] =
     ((a = 240 \<and> 144 \<le> b \<and> b \<le> 191 \<or> 241 \<le> a \<and> a \<le> 243 \<and> cont b
       \<or> a = 244 \<and> 128 \<le> b \<and> b \<le> 143) \<and> cont c \<and> cont d)"
| "utf8_valid bs = False"

function utf8_check :: "(bool \<times> char) list \<Rightarrow> bool" where
  "utf8_check [] = True"
| "utf8_check ((False, c) # ts) = utf8_check ts"
| "utf8_check ((True, c) # ts) =
     (let n = leading_ones (code c) in
      if n = 0 then utf8_check ts
      else if n = 1 \<or> 4 < n then False
      else length ts \<ge> n - 1 \<and> list_all fst (take (n - 1) ts)
           \<and> utf8_valid (map code (c # map snd (take (n - 1) ts)))
           \<and> utf8_check (drop (n - 1) ts))"
  by pat_completeness auto
termination
  by (relation "measure length") auto

definition decode_uri :: "string \<Rightarrow> string option" where
  "decode_uri s =
     (case escapes s of
        None \<Rightarrow> None
      | Some ts \<Rightarrow> if utf8_check ts then Some (map snd ts) else None)"

definition js :: "url platform" where
  "js = \<lparr>newURL = url_parse, hostname = host, pathname = url_pathname,
         searchParams_set = url_searchParams_set, toString = url_toString,
         decodeURIComponent = decode_uri, toLowerCase = ascii_lower, String_of = decimal\<rparr>"

section \<open>Evaluating the character classes\<close>

text \<open>
  The classes are defined by character codes; for evaluation each is also given on the
  bits of the character, low bit first.
\<close>

lemma c0_or_space_code [code]:
  "c0_or_space (Char b0 b1 b2 b3 b4 b5 b6 b7) =
     (\<not> b7 \<and> \<not> b6 \<and> (\<not> b5 \<or> \<not> (b0 \<or> b1 \<or> b2 \<or> b3 \<or> b4)))"
  by (simp add: c0_or_space_def code_def)

lemma c0_control_code [code]:
  "c0_control (Char b0 b1 b2 b3 b4 b5 b6 b7) =
     (b7 \<or> \<not> b6 \<and> \<not> b5 \<or> b0 \<and> b1 \<and> b2 \<and> b3 \<and> b4 \<and> b5 \<and> b6)"
  by (simp add: c0_control_def code_def)

lemma is_upper_code [code]:
  "is_upper (Char b0 b1 b2 b3 b4 b5 b6 b7) =
     (\<not> b7 \<and> b6 \<and> \<not> b5
      \<and> (if b4 then \<not> b3 \<or> \<not> b2 \<and> (\<not> b1 \<or> \<not> b0) else b3 \<or> b2 \<or> b1 \<or> b0))"
  by (simp add: is_upper_def code_def)

lemma is_alpha_code [code]:
  "is_alpha (Char b0 b1 b2 b3 b4 b5 b6 b7) =
     (\<not> b7 \<and> b6
      \<and> (if b4 then \<not> b3 \<or> \<not> b2 \<and> (\<not> b1 \<or> \<not> b0) else b3 \<or> b2 \<or> b1 \<or> b0))"
  by (simp add: is_alpha_def is_upper_def code_def)

lemma is_digit_code [code]:
  "is_digit (Char b0 b1 b2 b3 b4 b5 b6 b7) =
     (\<not> b7 \<and> \<not> b6 \<and> b5 \<and> b4 \<and> (\<not> b3 \<or> \<not> b2 \<and> \<not> b1))"
  by (simp add: is_digit_def code_def)

lemma is_hex_code [code]:
  "is_hex (Char b0 b1 b2 b3 b4 b5 b6 b7) =
     (\<not> b7
      \<and> (if b6 then \<not> b4 \<and> \<not> b3 \<and> (b2 \<and> \<not> (b1 \<and> b0) \<or> \<not> b2 \<and> (b1 \<or> b0))
          else b5 \<and> b4 \<and> (\<not> b3 \<or> \<not> b2 \<and> \<not> b1)))"
  by (simp add: is_hex_def is_digit_def code_def)

lemma lower_char_code [code]:
  "lower_char (Char b0 b1 b2 b3 b4 b5 b6 b7) =
     (if is_upper (Char b0 b1 b2 b3 b4 b5 b6 b7) then Char b0 b1 b2 b3 b4 True b6 b7
      else Char b0 b1 b2 b3 b4 b5 b6 b7)"
proof (cases "is_upper (Char b0 b1 b2 b3 b4 b5 b6 b7)")
  case True
  then have b: "\<not> b7" "b6" "\<not> b5"
    by (simp_all add: is_upper_code)
  have "of_char (Char b0 b1 b2 b3 b4 True b6 b7)
          = (of_char (Char b0 b1 b2 b3 b4 b5 b6 b7) :: nat) + 32"
    using b by simp
  then have "char_of (code (Char b0 b1 b2 b3 b4 b5 b6 b7) + 32) = Char b0 b1 b2 b3 b4 True b6 b7"
    unfolding code_def by (metis char_of_char)
  with True show ?thesis
    by (simp add: lower_char_def)
next
  case False
  then show ?thesis
    by (simp add: lower_char_def)
qed

section \<open>Properties\<close>

lemma split_from_nonempty: "split_from sep acc s \<noteq> []"
  by (induction sep acc s rule: split_from.induct) auto

lemma js_split_nonempty: "js_split s sep \<noteq> []"
  by (simp add: js_split_def split_from_nonempty)

text \<open>
  C10. The sizing functions of the two variants return the same string for every input
  string and every width, whatever the platform's URL class does.
\<close>

theorem sizing_variants_equal:
  "smartUrlSizing P url wid = withMarriottSizing P url wid"
  by (simp add: smartUrlSizing_def withMarriottSizing_def split: option.split)

subsection \<open>Source expansion\<close>




lemma push_same: "push (push [] u) u = push [] u"
  by (simp add: push_def)

lemma push_first: "u \<noteq> [] \<Longrightarrow> push [] u = [u]"
  by (simp add: push_def)






text \<open>
  C4 as stated fails: the host \<open>cache.example.com\<close> is not the one the sizing
  recognizes, so the expansion has one candidate.
\<close>

theorem scenario_B_counterexample:
  "\<not> 2 \<le> length (expandSources js ''https://cache.example.com/is/image/prod/photo-123:Wide-Hor'')"
  by code_simp

text \<open>
  C4, as the code has it. \<open>expandSources\<close> of
  \<open>https://cache.example.com/is/image/prod/photo-123:Wide-Hor\<close> is the input alone; for
  the same path on \<open>cache.marriott.com\<close> it is the five rewrites with \<open>wid\<close> and
  \<open>fit=constrain\<close> (four in the second variant) followed by the input.
\<close>

theorem scenario_B:
  "expandSources js ''https://cache.example.com/is/image/prod/photo-123:Wide-Hor''
     = [''https://cache.example.com/is/image/prod/photo-123:Wide-Hor'']
   \<and> expandSources js ''https://cache.marriott.com/is/image/prod/photo-123:Wide-Hor''
     = [''https://cache.marriott.com/is/image/prod/photo-123:Wide-Hor?wid=2200&fit=constrain'',
        ''https://cache.marriott.com/is/image/prod/photo-123:Wide-Hor?wid=1800&fit=constrain'',
        ''https://cache.marriott.com/is/image/prod/photo-123:Wide-Hor?wid=1400&fit=constrain'',
        ''https://cache.marriott.com/is/image/prod/photo-123:Wide-Hor?wid=1100&fit=constrain'',
        ''https://cache.marriott.com/is/image/prod/photo-123:Wide-Hor?wid=900&fit=constrain'',
        ''https://cache.marriott.com/is/image/prod/photo-123:Wide-Hor'']
   \<and> expandSources_v2 js ''https://cache.marriott.com/is/image/prod/photo-123:Wide-Hor''
     = [''https://cache.marriott.com/is/image/prod/photo-123:Wide-Hor?wid=2000&fit=constrain'',
        ''https://cache.marriott.com/is/image/prod/photo-123:Wide-Hor?wid=1600&fit=constrain'',
        ''https://cache.marriott.com/is/image/prod/photo-123:Wide-Hor?wid=1200&fit=constrain'',
        ''https://cache.marriott.com/is/image/prod/photo-123:Wide-Hor?wid=900&fit=constrain'',
        ''https://cache.marriott.com/is/image/prod/photo-123:Wide-Hor'']"
  by code_simp




subsection \<open>The image cursor\<close>

lemma onError_min: "v \<le> length srcs \<Longrightarrow> onError srcs v = min (Suc v) (length srcs)"
  by (simp add: onError_def)

lemma after_failures_min: "after_failures srcs k = min k (length srcs)"
  by (induction k) (simp_all add: after_failures_def onError_def)

text \<open>
  C5. A load failure never decreases the cursor and never takes it beyond the number of
  sources; the cursor after any number of failures is at most that number, grows with
  the number of failures, and once it equals the number of sources it stays there, with
  the placeholder shown.
\<close>

theorem cursor_monotone:
  "v \<le> onError srcs v
   \<and> (v \<le> length srcs \<longrightarrow> onError srcs v \<le> length srcs)
   \<and> onError srcs (length srcs) = length srcs
   \<and> after_failures srcs k \<le> after_failures srcs (k + j)
   \<and> after_failures srcs k \<le> length srcs
   \<and> (after_failures srcs k = length srcs \<longrightarrow>
        after_failures srcs (k + j) = length srcs
        \<and> SmartImage_src srcs alt (after_failures srcs (k + j)) = Placeholder alt)"
  by (auto simp: after_failures_min onError_def SmartImage_src_def)

theorem cursor_monotone_witness:
  "after_failures [''bad1'', ''bad2'', ''good''] 2 \<le> 3
   \<and> SmartImage_src [''bad1'', ''bad2'', ''good''] ''alt'' (after_failures [''bad1'', ''bad2'', ''good''] 2)
       = Source ''good''
   \<and> after_failures [''bad1'', ''bad2'', ''good''] 3 = 3
   \<and> after_failures [''bad1'', ''bad2'', ''good''] (3 + 4) = 3
   \<and> SmartImage_src [''bad1'', ''bad2'', ''good''] ''alt'' (after_failures [''bad1'', ''bad2'', ''good''] (3 + 4))
       = Placeholder ''alt''"
proof -
  have a: "after_failures [''bad1'', ''bad2'', ''good''] 3 = length [''bad1'', ''bad2'', ''good'']"
    by (simp add: after_failures_def onError_def eval_nat_numeral)
  have b: "after_failures [''bad1'', ''bad2'', ''good''] 2 = 2"
    by (simp add: after_failures_def onError_def eval_nat_numeral)
  from a b cursor_monotone [of 0 "[''bad1'', ''bad2'', ''good'']" 3 4 "''alt''"]
       cursor_monotone [of 0 "[''bad1'', ''bad2'', ''good'']" 2 0 "''alt''"]
  show ?thesis
    by (simp add: SmartImage_src_def)
qed

subsection \<open>Lightbox navigation\<close>

lemma rem_mod: "0 \<le> a \<Longrightarrow> 0 < b \<Longrightarrow> rem a b = Num (a mod b)"
  by (cases "a = 0") (simp_all add: rem_def)

lemma visiblePhotos_lightbox [simp]:
  "visiblePhotos ps (g\<lparr>lightboxIndex := x\<rparr>) = visiblePhotos ps g"
  by (simp add: visiblePhotos_def)

lemma next_at:
  assumes "lightboxIndex g = Some (Num i)" "0 \<le> i" "i < int (length (visiblePhotos ps g))"
  shows "next ps g = g\<lparr>lightboxIndex := Some (Num ((i + 1) mod int (length (visiblePhotos ps g))))\<rparr>"
proof -
  have "rem (i + 1) (int (length (visiblePhotos ps g)))
          = Num ((i + 1) mod int (length (visiblePhotos ps g)))"
    using assms by (intro rem_mod) linarith+
  with assms show ?thesis
    by (simp add: next_def)
qed

lemma prev_at:
  assumes "lightboxIndex g = Some (Num i)" "0 \<le> i" "i < int (length (visiblePhotos ps g))"
  shows "prev ps g = g\<lparr>lightboxIndex :=
           Some (Num ((i - 1 + int (length (visiblePhotos ps g))) mod int (length (visiblePhotos ps g))))\<rparr>"
proof -
  have "rem (i - 1 + int (length (visiblePhotos ps g))) (int (length (visiblePhotos ps g)))
          = Num ((i - 1 + int (length (visiblePhotos ps g))) mod int (length (visiblePhotos ps g)))"
    using assms by (intro rem_mod) linarith+
  with assms show ?thesis
    by (simp add: prev_def del: mod_add_self2)
qed

lemma next_funpow:
  assumes "lightboxIndex g = Some (Num i)" "0 \<le> i" "i < int (length (visiblePhotos ps g))"
  shows "(next ps ^^ k) g
           = g\<lparr>lightboxIndex := Some (Num ((i + int k) mod int (length (visiblePhotos ps g))))\<rparr>"
proof (induction k)
  case 0
  from assms show ?case by simp
next
  case (Suc k)
  let ?n = "int (length (visiblePhotos ps g))"
  let ?g = "g\<lparr>lightboxIndex := Some (Num ((i + int k) mod ?n))\<rparr>"
  have n: "0 < ?n" using assms by linarith
  have "next ps ?g = ?g\<lparr>lightboxIndex := Some (Num (((i + int k) mod ?n + 1) mod ?n))\<rparr>"
    using n by (intro next_at [where i = "(i + int k) mod ?n", THEN trans]) simp_all
  moreover have "((i + int k) mod ?n + 1) mod ?n = (i + int (Suc k)) mod ?n"
    by (simp add: mod_simps algebra_simps)
  ultimately show ?case
    using Suc.IH by simp
qed

text \<open>
  C6. With a visible slice of \<open>n\<close> photos and the lightbox open at \<open>i\<close>, \<open>0 \<le> i < n\<close>:
  \<open>next\<close> moves to \<open>(i + 1) mod n\<close> and \<open>prev\<close> to \<open>(i - 1 + n) mod n\<close>, both in
  \<open>[0, n)\<close>; \<open>n\<close> times \<open>next\<close> returns to \<open>i\<close>; \<open>prev\<close> and \<open>next\<close> undo each other;
  with one photo both leave the state as it is.
\<close>

theorem lightbox_cyclic:
  assumes "lightboxIndex g = Some (Num i)" and "0 \<le> i" and "i < n"
    and "n = int (length (visiblePhotos ps g))"
  shows "lightboxIndex (next ps g) = Some (Num ((i + 1) mod n))
     \<and> lightboxIndex (prev ps g) = Some (Num ((i - 1 + n) mod n))
     \<and> 0 \<le> (i + 1) mod n \<and> (i + 1) mod n < n
     \<and> 0 \<le> (i - 1 + n) mod n \<and> (i - 1 + n) mod n < n
     \<and> (next ps ^^ nat n) g = g
     \<and> next ps (prev ps g) = g
     \<and> prev ps (next ps g) = g
     \<and> (n = 1 \<longrightarrow> next ps g = g \<and> prev ps g = g)"
proof -
  have n: "0 < n" using assms by linarith
  have a: "next ps g = g\<lparr>lightboxIndex := Some (Num ((i + 1) mod n))\<rparr>"
    using assms next_at by blast
  have b: "prev ps g = g\<lparr>lightboxIndex := Some (Num ((i - 1 + n) mod n))\<rparr>"
    using assms prev_at by blast
  have c: "(next ps ^^ nat n) g = g"
    using next_funpow [of g i ps "nat n"] assms n by simp
  have "next ps (prev ps g) = g\<lparr>lightboxIndex := Some (Num (((i - 1 + n) mod n + 1) mod n))\<rparr>"
    unfolding b using n assms(4)
    by (subst next_at [where i = "(i - 1 + n) mod n"]) simp_all
  moreover have "((i - 1 + n) mod n + 1) mod n = i"
    using assms n by (simp add: mod_simps)
  ultimately have d: "next ps (prev ps g) = g"
    using assms by simp
  have "prev ps (next ps g) = g\<lparr>lightboxIndex := Some (Num (((i + 1) mod n - 1 + n) mod n))\<rparr>"
    unfolding a using n assms(4)
    by (subst prev_at [where i = "(i + 1) mod n"]) simp_all
  moreover have "((i + 1) mod n - 1 + n) mod n = i"
    using assms n by (simp add: mod_simps)
  ultimately have e: "prev ps (next ps g) = g"
    using assms by simp
  have f: "n = 1 \<longrightarrow> next ps g = g \<and> prev ps g = g"
    using a b assms by auto
  from a b c d e f n show ?thesis
    by simp
qed

theorem lightbox_cyclic_witness:
  "lightboxIndex (prev [1, 2, 3, 4, 5 :: nat] \<lparr>visibleCount = 12, lightboxIndex = Some (Num 0)\<rparr>)
     = Some (Num 4)
   \<and> lightboxIndex (next [1, 2, 3, 4, 5 :: nat] \<lparr>visibleCount = 12, lightboxIndex = Some (Num 4)\<rparr>)
     = Some (Num 0)
   \<and> (next [1, 2, 3, 4, 5 :: nat] ^^ 5) \<lparr>visibleCount = 12, lightboxIndex = Some (Num 3)\<rparr>
     = \<lparr>visibleCount = 12, lightboxIndex = Some (Num 3)\<rparr>
   \<and> next [7 :: nat] \<lparr>visibleCount = 12, lightboxIndex = Some (Num 0)\<rparr>
     = \<lparr>visibleCount = 12, lightboxIndex = Some (Num 0)\<rparr>"
proof -
  have n: "5 = int (length (visiblePhotos [1, 2, 3, 4, 5 :: nat] \<lparr>visibleCount = 12, lightboxIndex = x\<rparr>))"
    for x
    by (simp add: visiblePhotos_def slice_def)
  have m: "1 = int (length (visiblePhotos [7 :: nat] \<lparr>visibleCount = 12, lightboxIndex = x\<rparr>))"
    for x
    by (simp add: visiblePhotos_def slice_def)
  have "lightboxIndex (prev [1, 2, 3, 4, 5 :: nat] \<lparr>visibleCount = 12, lightboxIndex = Some (Num 0)\<rparr>)
     = Some (Num ((0 - 1 + 5) mod 5))"
    using lightbox_cyclic [where i = 0 and n = 5, OF _ _ _ n] by simp
  moreover
  have "lightboxIndex (next [1, 2, 3, 4, 5 :: nat] \<lparr>visibleCount = 12, lightboxIndex = Some (Num 4)\<rparr>)
     = Some (Num ((4 + 1) mod 5))"
    using lightbox_cyclic [where i = 4 and n = 5, OF _ _ _ n] by simp
  moreover
  have "(next [1, 2, 3, 4, 5 :: nat] ^^ nat 5) \<lparr>visibleCount = 12, lightboxIndex = Some (Num 3)\<rparr>
     = \<lparr>visibleCount = 12, lightboxIndex = Some (Num 3)\<rparr>"
    using lightbox_cyclic [where i = 3 and n = 5, OF _ _ _ n] by simp
  moreover
  have "next [7 :: nat] \<lparr>visibleCount = 12, lightboxIndex = Some (Num 0)\<rparr>
     = \<lparr>visibleCount = 12, lightboxIndex = Some (Num 0)\<rparr>"
    using lightbox_cyclic [where i = 0 and n = 1, OF _ _ _ m] by simp
  ultimately show ?thesis
    by simp
qed

subsection \<open>The gallery\<close>

lemma length_visiblePhotos:
  "int (length (visiblePhotos ps g)) = max 0 (min (visibleCount g) (int (length ps)))"
  by (simp add: visiblePhotos_def slice_def)

lemma fire_valid:
  assumes v: "lightbox_valid ps g"
  shows "lightbox_valid ps (fire ps g ev)"
proof (cases ev)
  case (ClickThumbnail i)
  with v show ?thesis
    by (auto simp: lightbox_valid_def setLightboxIndex_def)
next
  case (ClickFeatured i)
  with v show ?thesis
    by (auto simp: lightbox_valid_def setLightboxIndex_def slice_def)
next
  case ClickLoadMore
  have "int (length (visiblePhotos ps g)) \<le> int (length (visiblePhotos ps (loadMore ps g)))"
    unfolding length_visiblePhotos by (simp add: loadMore_def)
  moreover have "lightboxIndex (loadMore ps g) = lightboxIndex g"
    by (simp add: loadMore_def)
  ultimately show ?thesis
    using v ClickLoadMore by (auto simp: lightbox_valid_def split: option.splits number.splits)
next
  case Close
  with v show ?thesis
    by (simp add: lightbox_valid_def close_def)
next
  case Prev
  show ?thesis
  proof (cases "lightboxIndex g")
    case None
    with v Prev show ?thesis by simp
  next
    case (Some x)
    with v obtain i where i: "x = Num i" "0 \<le> i" "i < int (length (visiblePhotos ps g))"
      by (cases x) (auto simp: lightbox_valid_def)
    then have "rem (i - 1 + int (length (visiblePhotos ps g))) (int (length (visiblePhotos ps g)))
                 = Num ((i - 1 + int (length (visiblePhotos ps g))) mod int (length (visiblePhotos ps g)))"
      by (intro rem_mod) linarith+
    moreover have "0 < int (length (visiblePhotos ps g))"
      using i by linarith
    ultimately show ?thesis
      using Some i Prev
      by (simp add: lightbox_valid_def prev_def pos_mod_sign pos_mod_bound del: mod_add_self2)
  qed
next
  case Next
  show ?thesis
  proof (cases "lightboxIndex g")
    case None
    with v Next show ?thesis by simp
  next
    case (Some x)
    with v obtain i where i: "x = Num i" "0 \<le> i" "i < int (length (visiblePhotos ps g))"
      by (cases x) (auto simp: lightbox_valid_def)
    then have "rem (i + 1) (int (length (visiblePhotos ps g)))
                 = Num ((i + 1) mod int (length (visiblePhotos ps g)))"
      by (intro rem_mod) linarith+
    moreover have "0 < int (length (visiblePhotos ps g))"
      using i by linarith
    ultimately show ?thesis
      using Some i Next
      by (simp add: lightbox_valid_def next_def pos_mod_sign pos_mod_bound)
  qed
qed

lemma foldl_fire_valid:
  "lightbox_valid ps g \<Longrightarrow> lightbox_valid ps (foldl (fire ps) g evs)"
  by (induction evs arbitrary: g) (simp_all add: fire_valid)

text \<open>
  C8. The lightbox index is valid at the start, every event keeps it valid (a click on a
  rendered thumbnail of the grid or of the strip, previous, next, close, load more), so
  in every reachable state an open lightbox has an index into the visible slice.
\<close>

theorem lightbox_index_valid:
  "lightbox_valid ps initial
   \<and> (lightbox_valid ps g \<longrightarrow> lightbox_valid ps (fire ps g ev))
   \<and> lightbox_valid ps (run ps evs)
   \<and> (lightboxIndex (run ps evs) \<noteq> None \<longrightarrow>
        (\<exists>i. lightboxIndex (run ps evs) = Some (Num i)
             \<and> 0 \<le> i \<and> i < int (length (visiblePhotos ps (run ps evs)))))"
proof -
  have a: "lightbox_valid ps initial"
    by (simp add: lightbox_valid_def initial_def)
  then have b: "lightbox_valid ps (run ps evs)"
    unfolding run_def by (rule foldl_fire_valid)
  then have "\<exists>i. lightboxIndex (run ps evs) = Some (Num i)
             \<and> 0 \<le> i \<and> i < int (length (visiblePhotos ps (run ps evs)))"
    if "lightboxIndex (run ps evs) \<noteq> None"
    using that by (auto simp: lightbox_valid_def split: option.splits number.splits)
  with a b fire_valid show ?thesis
    by blast
qed

theorem lightbox_index_valid_witness:
  "lightbox_valid [1, 2, 3, 4, 5 :: nat]
     (fire [1, 2, 3, 4, 5 :: nat] \<lparr>visibleCount = 12, lightboxIndex = Some (Num 0)\<rparr> Prev)
   \<and> lightboxIndex (fire [1, 2, 3, 4, 5 :: nat] \<lparr>visibleCount = 12, lightboxIndex = Some (Num 0)\<rparr> Prev)
       = Some (Num 4)
   \<and> lightboxIndex (run [1, 2, 3, 4, 5 :: nat] [ClickFeatured 1, Next, Next]) = Some (Num 0)
   \<and> (\<exists>i. lightboxIndex (run [1, 2, 3, 4, 5 :: nat] [ClickFeatured 1, Next, Next]) = Some (Num i)
          \<and> 0 \<le> i
          \<and> i < int (length (visiblePhotos [1, 2, 3, 4, 5 :: nat]
                                (run [1, 2, 3, 4, 5 :: nat] [ClickFeatured 1, Next, Next]))))"
proof -
  have a: "lightbox_valid [1, 2, 3, 4, 5 :: nat] \<lparr>visibleCount = 12, lightboxIndex = Some (Num 0)\<rparr>"
    by (simp add: lightbox_valid_def visiblePhotos_def slice_def)
  have b: "lightboxIndex (fire [1, 2, 3, 4, 5 :: nat] \<lparr>visibleCount = 12, lightboxIndex = Some (Num 0)\<rparr> Prev)
       = Some (Num 4)"
    by (simp add: prev_def visiblePhotos_def slice_def rem_def)
  have c: "lightboxIndex (run [1, 2, 3, 4, 5 :: nat] [ClickFeatured 1, Next, Next]) = Some (Num 0)"
    by (simp add: run_def initial_def setLightboxIndex_def next_def visiblePhotos_def slice_def rem_def)
  from a b c
    lightbox_index_valid [of "[1, 2, 3, 4, 5 :: nat]"
      "\<lparr>visibleCount = 12, lightboxIndex = Some (Num 0)\<rparr>" Prev "[ClickFeatured 1, Next, Next]"]
  show ?thesis
    by simp
qed

lemma fire_visibleCount: "visibleCount g \<le> visibleCount (fire ps g ev)"
  by (cases ev)
     (simp_all add: setLightboxIndex_def close_def prev_def next_def loadMore_def
        loadMore_offered_def)

lemma fire_bound:
  "12 \<le> visibleCount g \<Longrightarrow> visibleCount g \<le> int (length ps)
   \<Longrightarrow> visibleCount (fire ps g ev) \<le> int (length ps)"
  by (cases ev)
     (simp_all add: setLightboxIndex_def close_def prev_def next_def loadMore_def
        loadMore_offered_def)

lemma foldl_fire_bound:
  "12 \<le> visibleCount g \<Longrightarrow> visibleCount g \<le> int (length ps)
   \<Longrightarrow> 12 \<le> visibleCount (foldl (fire ps) g evs)
       \<and> visibleCount (foldl (fire ps) g evs) \<le> int (length ps)"
proof (induction evs arbitrary: g)
  case Nil
  then show ?case by simp
next
  case (Cons ev evs)
  have "12 \<le> visibleCount (fire ps g ev)"
    using Cons.prems(1) fire_visibleCount [of g ps ev] by linarith
  moreover have "visibleCount (fire ps g ev) \<le> int (length ps)"
    using Cons.prems by (rule fire_bound)
  ultimately show ?case
    using Cons.IH by simp
qed

lemma run_bound:
  "12 \<le> length ps \<Longrightarrow> 12 \<le> visibleCount (run ps evs) \<and> visibleCount (run ps evs) \<le> int (length ps)"
  unfolding run_def by (rule foldl_fire_bound) (simp_all add: initial_def)

lemma run_append: "run ps (evs @ evs') = foldl (fire ps) (run ps evs) evs'"
  by (simp add: run_def)

lemma foldl_fire_mono: "visibleCount g \<le> visibleCount (foldl (fire ps) g evs)"
proof (induction evs arbitrary: g)
  case Nil
  show ?case by simp
next
  case (Cons ev evs)
  have "visibleCount g \<le> visibleCount (fire ps g ev)"
    by (rule fire_visibleCount)
  also have "\<dots> \<le> visibleCount (foldl (fire ps) (fire ps g ev) evs)"
    by (rule Cons.IH)
  finally show ?case by simp
qed

subsection \<open>The catalogs of the two variants\<close>

lemma photos_loop_acc: "photos_loop P seen out bs = out @ photos_loop P seen [] bs"
proof (induction bs arbitrary: seen out)
  case Nil
  show ?case by simp
next
  case (Cons b bs)
  show ?case
    using Cons.IH [of seen out] Cons.IH [of "insert (photo_key P b) seen" "out @ [b]"]
          Cons.IH [of "insert (photo_key P b) seen" "[b]"]
    by (simp add: Let_def)
qed

lemma photos_loop_all:
  "distinct (map (photo_key P) bs) \<Longrightarrow> [] \<notin> photo_key P ` set bs
   \<Longrightarrow> photo_key P ` set bs \<inter> seen = {} \<Longrightarrow> photos_loop P seen [] bs = bs"
proof (induction bs arbitrary: seen)
  case Nil
  show ?case by simp
next
  case (Cons b bs)
  have "photos_loop P (insert (photo_key P b) seen) [] bs = bs"
    using Cons.prems by (intro Cons.IH) auto
  then show ?case
    using Cons.prems photos_loop_acc [of P "insert (photo_key P b) seen" "[b]" bs]
    by (auto simp: Let_def)
qed

lemma push_hd: "s \<noteq> [] \<Longrightarrow> push s u \<noteq> [] \<and> hd (push s u) = hd s"
  by (simp add: push_def)

lemma expandSources_hd:
  assumes "smartUrlSizing P x 2200 \<noteq> []"
  shows "expandSources P x \<noteq> [] \<and> hd (expandSources P x) = smartUrlSizing P x 2200"
proof -
  have "push [] (smartUrlSizing P x 2200) = [smartUrlSizing P x 2200]"
    using assms by (simp add: push_def)
  then show ?thesis
    unfolding expandSources_def Let_def
    by (simp add: push_hd)
qed

lemma expandSources_v2_hd:
  assumes "withMarriottSizing P x 2000 \<noteq> []"
  shows "expandSources_v2 P x \<noteq> [] \<and> hd (expandSources_v2 P x) = withMarriottSizing P x 2000"
proof -
  have "push [] (withMarriottSizing P x 2000) = [withMarriottSizing P x 2000]"
    using assms by (simp add: push_def)
  then show ?thesis
    unfolding expandSources_v2_def Let_def
    by (simp add: push_hd)
qed

lemma photo_key_hd: "sources p \<noteq> [] \<Longrightarrow> photo_key P p = photoKeyFromUrl P (hd (sources p))"
  by (cases "sources p") (simp_all add: photo_key_def)

lemma url_toString_nonempty: "url_toString u \<noteq> []"
  by (simp add: url_toString_def)

lemma smartUrlSizing_js_nonempty: "x \<noteq> [] \<Longrightarrow> smartUrlSizing js x w \<noteq> []"
  by (simp add: smartUrlSizing_def js_def url_toString_nonempty split: option.split)

lemma withMarriottSizing_js_nonempty: "x \<noteq> [] \<Longrightarrow> withMarriottSizing js x w \<noteq> []"
  by (simp add: withMarriottSizing_def js_def url_toString_nonempty split: option.split)

lemma built_key:
  "x \<noteq> [] \<Longrightarrow>
   photo_key js \<lparr>photo_id = i, title = t, tag = g, sources = expandSources js x\<rparr>
     = photoKeyFromUrl js (smartUrlSizing js x 2200)"
  using expandSources_hd [of js x] smartUrlSizing_js_nonempty [of x 2200]
  by (simp add: photo_key_hd)

lemma built_key_v2:
  "x \<noteq> [] \<Longrightarrow>
   photo_key js \<lparr>photo_id = i, title = t, tag = g, sources = expandSources_v2 js x\<rparr>
     = photoKeyFromUrl js (withMarriottSizing js x 2000)"
  using expandSources_v2_hd [of js x] withMarriottSizing_js_nonempty [of x 2000]
  by (simp add: photo_key_hd)

lemma keys_raw:
  "map (\<lambda>r. photoKeyFromUrl js (smartUrlSizing js (primary r) 2200)) raw =
     [''lc-bjvlc-drone-view-23060'',
      ''lc-bjvlc-drone-view-37065'',
      ''lc-bjvlc-hotel-exterior-11389'',
      ''bjvlc-caresse-beach-6997-hor-wide.jpg'',
      ''bjvlc-private-beach-9546-hor-wide.jpg'',
      ''bjvlc-cabanas-9527-hor-wide.jpg'',
      ''bjvlc-pool-9526-hor-wide.jpg'',
      ''bjvlc-sunset-lounge-9529-hor-wide.jpg'',
      ''bjvlc-glass-restaurant-9570-hor-wide.jpg'',
      ''bjvlc-buddha-restaurant-1797-hor-wide.jpg'',
      ''bjvlc-spa-caresse-9616-hor-wide.jpg'',
      ''bjvlc-indoor-pool-9613'']"
  by code_simp

lemma keys_raw_v2:
  "map (\<lambda>r. photoKeyFromUrl js (withMarriottSizing js (primary r) 2000)) raw_v2 =
     [''lc-bjvlc-drone-view-23060'',
      ''lc-bjvlc-drone-view-37065'',
      ''lc-bjvlc-hotel-exterior-11389'',
      ''bjvlc-caresse-beach-6997-hor-wide.jpg'',
      ''bjvlc-private-beach-9546-hor-wide.jpg'',
      ''lc-bjvlc-deck-35144'',
      ''bjvlc-cabanas-9527-hor-wide.jpg'',
      ''bjvlc-pool-9526-hor-wide.jpg'',
      ''lc-bjvlc-pool-28022'',
      ''bjvlc-sunset-lounge-9529-hor-wide.jpg'',
      ''bjvlc-glass-restaurant-9570-hor-wide.jpg'',
      ''lc-bjvlc-glass-lounge-27060'',
      ''bjvlc-buddha-restaurant-1797-hor-wide.jpg'',
      ''lc-bjvlc-la-zucca-pizza-bar-38504'',
      ''bjvlc-spa-caresse-9616-hor-wide.jpg'',
      ''bjvlc-spa-caresse-9610-hor-wide.jpg'',
      ''bjvlc-indoor-pool-9613'']"
  by code_simp

lemma built_keys:
  "\<forall>r\<in>set rs. primary r \<noteq> [] \<Longrightarrow>
   map (photo_key js) (built (expandSources js) rs)
     = map (\<lambda>r. photoKeyFromUrl js (smartUrlSizing js (primary r) 2200)) rs"
  by (simp add: built_def built_key)

lemma built_keys_v2:
  "\<forall>r\<in>set rs. primary r \<noteq> [] \<Longrightarrow>
   map (photo_key js) (built (expandSources_v2 js) rs)
     = map (\<lambda>r. photoKeyFromUrl js (withMarriottSizing js (primary r) 2000)) rs"
  by (simp add: built_def built_key_v2)

lemma photos_raw: "photos js raw = built (expandSources js) raw"
proof -
  have "\<forall>r\<in>set raw. primary r \<noteq> []"
    by (simp add: raw_def)
  then have k: "map (photo_key js) (built (expandSources js) raw)
      = map (\<lambda>r. photoKeyFromUrl js (smartUrlSizing js (primary r) 2200)) raw"
    by (rule built_keys)
  have d: "distinct (map (photo_key js) (built (expandSources js) raw))"
    unfolding k keys_raw by simp
  have "[] \<notin> set (map (photo_key js) (built (expandSources js) raw))"
    unfolding k keys_raw by simp
  then have e: "[] \<notin> photo_key js ` set (built (expandSources js) raw)"
    by simp
  show ?thesis
    unfolding photos_def using d e by (intro photos_loop_all) simp_all
qed

lemma photos_raw_v2: "photos_v2 js raw_v2 = built (expandSources_v2 js) raw_v2"
proof -
  have "\<forall>r\<in>set raw_v2. primary r \<noteq> []"
    by (simp add: raw_v2_def)
  then have k: "map (photo_key js) (built (expandSources_v2 js) raw_v2)
      = map (\<lambda>r. photoKeyFromUrl js (withMarriottSizing js (primary r) 2000)) raw_v2"
    by (rule built_keys_v2)
  have d: "distinct (map (photo_key js) (built (expandSources_v2 js) raw_v2))"
    unfolding k keys_raw_v2 by simp
  have "[] \<notin> set (map (photo_key js) (built (expandSources_v2 js) raw_v2))"
    unfolding k keys_raw_v2 by simp
  then have e: "[] \<notin> photo_key js ` set (built (expandSources_v2 js) raw_v2)"
    by simp
  show ?thesis
    unfolding photos_v2_def using d e by (intro photos_loop_all) simp_all
qed

lemma length_photos_raw: "length (photos js raw) = 12"
  unfolding photos_raw by (simp add: built_def raw_def)

lemma length_photos_raw_v2: "length (photos_v2 js raw_v2) = 17"
  unfolding photos_raw_v2 by (simp add: built_def raw_v2_def)

text \<open>
  C7. The page starts with \<open>visibleCount = 12\<close>, and the catalog of either variant has at
  least 12 photos (12 and 17). So in every reachable state \<open>visibleCount\<close> is at most the
  length of the catalog; no event decreases it, hence it only grows along a run;
  \<open>loadMore\<close> sets it to \<open>min (visibleCount + 12) (length of the catalog)\<close> and is
  offered exactly while \<open>visibleCount\<close> is below that length.
\<close>

theorem loadMore_monotone_bounded:
  assumes "ps = photos js raw \<or> ps = photos_v2 js raw_v2"
  shows "visibleCount (run ps evs) \<le> int (length ps)
     \<and> visibleCount (run ps evs) \<le> visibleCount (run ps (evs @ evs'))
     \<and> visibleCount g \<le> visibleCount (fire ps g ev)
     \<and> visibleCount (loadMore ps g) = min (visibleCount g + 12) (int (length ps))
     \<and> (loadMore_offered ps g \<longleftrightarrow> visibleCount g < int (length ps))
     \<and> fire ps g ClickLoadMore = (if visibleCount g < int (length ps) then loadMore ps g else g)"
proof -
  from assms have "12 \<le> length ps"
    using length_photos_raw length_photos_raw_v2 by auto
  then have "visibleCount (run ps evs) \<le> int (length ps)"
    using run_bound by blast
  moreover have "visibleCount (run ps evs) \<le> visibleCount (run ps (evs @ evs'))"
    unfolding run_append by (rule foldl_fire_mono)
  moreover have "visibleCount g \<le> visibleCount (fire ps g ev)"
    by (rule fire_visibleCount)
  ultimately show ?thesis
    by (simp add: loadMore_def loadMore_offered_def)
qed

theorem loadMore_monotone_bounded_witness:
  "visibleCount (run (photos_v2 js raw_v2) [ClickLoadMore, ClickLoadMore])
     \<le> int (length (photos_v2 js raw_v2))
   \<and> visibleCount (run (photos_v2 js raw_v2) []) = 12
   \<and> visibleCount (run (photos_v2 js raw_v2) [ClickLoadMore]) = 17
   \<and> visibleCount (run (photos js raw) [ClickLoadMore]) = 12
   \<and> visibleCount (run (photos js raw) [ClickLoadMore]) \<le> int (length (photos js raw))"
proof -
  have a: "visibleCount (run (photos_v2 js raw_v2) [ClickLoadMore]) = 17"
    by (simp add: run_def initial_def loadMore_offered_def loadMore_def length_photos_raw_v2)
  have b: "visibleCount (run (photos js raw) [ClickLoadMore]) = 12"
    by (simp add: run_def initial_def loadMore_offered_def loadMore_def length_photos_raw)
  have c: "visibleCount (run (photos_v2 js raw_v2) []) = 12"
    by (simp add: run_def initial_def)
  from a b c
    loadMore_monotone_bounded [of "photos_v2 js raw_v2" "[ClickLoadMore, ClickLoadMore]"]
    loadMore_monotone_bounded [of "photos js raw" "[ClickLoadMore]"]
  show ?thesis
    by simp
qed

subsection \<open>Deduplication\<close>

lemma photos_loop_subseq: "subseq (photos_loop P seen [] bs) bs"
proof (induction bs arbitrary: seen)
  case Nil
  show ?case by simp
next
  case (Cons b bs)
  show ?case
    using Cons.IH [of seen] Cons.IH [of "insert (photo_key P b) seen"]
          photos_loop_acc [of P "insert (photo_key P b) seen" "[b]" bs]
    by (auto simp: Let_def)
qed

lemma photos_loop_keys:
  "distinct (map (photo_key P) (photos_loop P seen [] bs))
   \<and> photo_key P ` set (photos_loop P seen [] bs) \<inter> seen = {}
   \<and> [] \<notin> photo_key P ` set (photos_loop P seen [] bs)"
proof (induction bs arbitrary: seen)
  case Nil
  show ?case by simp
next
  case (Cons b bs)
  show ?case
  proof (cases "photo_key P b = [] \<or> photo_key P b \<in> seen")
    case True
    then show ?thesis
      using Cons.IH [of seen] by (simp add: Let_def)
  next
    case False
    have "photos_loop P seen [] (b # bs) = b # photos_loop P (insert (photo_key P b) seen) [] bs"
      using False photos_loop_acc [of P "insert (photo_key P b) seen" "[b]" bs]
      by (simp add: Let_def)
    then show ?thesis
      using False Cons.IH [of "insert (photo_key P b) seen"] by auto
  qed
qed

lemma photos_loop_filter:
  "filter (\<lambda>p. photo_key P p = k) (photos_loop P seen [] bs)
     = (if k = [] \<or> k \<in> seen then []
        else case find (\<lambda>p. photo_key P p = k) bs of None \<Rightarrow> [] | Some f \<Rightarrow> [f])"
proof (induction bs arbitrary: seen)
  case Nil
  show ?case by simp
next
  case (Cons b bs)
  show ?case
  proof (cases "photo_key P b = [] \<or> photo_key P b \<in> seen")
    case True
    then show ?thesis
      using Cons.IH [of seen] by (auto simp: Let_def)
  next
    case False
    have "photos_loop P seen [] (b # bs) = b # photos_loop P (insert (photo_key P b) seen) [] bs"
      using False photos_loop_acc [of P "insert (photo_key P b) seen" "[b]" bs]
      by (simp add: Let_def)
    then show ?thesis
      using False Cons.IH [of "insert (photo_key P b) seen"] by auto
  qed
qed

text \<open>
  C2. In both variants the catalog is a sublist of the built photos in their order; its
  keys are distinct and none is empty; and for every key the photos of the catalog with
  that key are: none when the key is empty or no built photo has it, and otherwise
  exactly the first built photo with that key. So of two records with the same key only
  the first can be in the catalog, and records with an empty key are dropped.
\<close>

theorem photos_dedup:
  "subseq (photos P rs) (built (expandSources P) rs)
   \<and> distinct (map (photo_key P) (photos P rs))
   \<and> [] \<notin> photo_key P ` set (photos P rs)
   \<and> filter (\<lambda>p. photo_key P p = k) (photos P rs)
       = (if k = [] then []
          else case find (\<lambda>p. photo_key P p = k) (built (expandSources P) rs) of
                 None \<Rightarrow> [] | Some f \<Rightarrow> [f])
   \<and> subseq (photos_v2 P rs) (built (expandSources_v2 P) rs)
   \<and> distinct (map (photo_key P) (photos_v2 P rs))
   \<and> [] \<notin> photo_key P ` set (photos_v2 P rs)
   \<and> filter (\<lambda>p. photo_key P p = k) (photos_v2 P rs)
       = (if k = [] then []
          else case find (\<lambda>p. photo_key P p = k) (built (expandSources_v2 P) rs) of
                 None \<Rightarrow> [] | Some f \<Rightarrow> [f])"
  unfolding photos_def photos_v2_def
  using photos_loop_subseq [of P "{}"] photos_loop_keys [of P "{}"] photos_loop_filter [of P k "{}"]
  by simp

theorem photos_dedup_witness:
  "filter (\<lambda>p. photo_key js p = ''a'')
     (photos js
        [\<lparr>raw_id = ''one'', raw_title = ''First'', raw_tag = ''Pool'',
           primary = ''https://cache.marriott.com/is/image/p/a%3AWide?wid=500''\<rparr>,
         \<lparr>raw_id = ''two'', raw_title = ''Second'', raw_tag = ''Pool'',
           primary = ''https://cache.marriott.com/is/image/p/a%3AWide?wid=900''\<rparr>])
   = [\<lparr>photo_id = ''one'', title = ''First'', tag = Some ''Pool'',
       sources = expandSources js ''https://cache.marriott.com/is/image/p/a%3AWide?wid=500''\<rparr>]
   \<and> length
     (photos js
        [\<lparr>raw_id = ''one'', raw_title = ''First'', raw_tag = ''Pool'',
           primary = ''https://cache.marriott.com/is/image/p/a%3AWide?wid=500''\<rparr>,
         \<lparr>raw_id = ''two'', raw_title = ''Second'', raw_tag = ''Pool'',
           primary = ''https://cache.marriott.com/is/image/p/a%3AWide?wid=900''\<rparr>]) = 1"
proof -
  let ?rs = "[\<lparr>raw_id = ''one'', raw_title = ''First'', raw_tag = ''Pool'',
           primary = ''https://cache.marriott.com/is/image/p/a%3AWide?wid=500''\<rparr>,
         \<lparr>raw_id = ''two'', raw_title = ''Second'', raw_tag = ''Pool'',
           primary = ''https://cache.marriott.com/is/image/p/a%3AWide?wid=900''\<rparr>]"
  have k1: "photoKeyFromUrl js
      (smartUrlSizing js ''https://cache.marriott.com/is/image/p/a%3AWide?wid=500'' 2200) = ''a''"
    by code_simp
  have k2: "photoKeyFromUrl js
      (smartUrlSizing js ''https://cache.marriott.com/is/image/p/a%3AWide?wid=900'' 2200) = ''a''"
    by code_simp
  have f: "filter (\<lambda>p. photo_key js p = ''a'') (photos js ?rs)
      = [\<lparr>photo_id = ''one'', title = ''First'', tag = Some ''Pool'',
          sources = expandSources js ''https://cache.marriott.com/is/image/p/a%3AWide?wid=500''\<rparr>]"
    using photos_dedup [of js ?rs "''a''"] by (simp add: built_def built_key k1)
  have "photos js ?rs
      = [\<lparr>photo_id = ''one'', title = ''First'', tag = Some ''Pool'',
          sources = expandSources js ''https://cache.marriott.com/is/image/p/a%3AWide?wid=500''\<rparr>]"
    by (simp add: photos_def built_def built_key k1 k2)
  with f show ?thesis
    by simp
qed

subsection \<open>The language preference\<close>

text \<open>
  C9. Mounting reads the store once, under \<open>wedding_lang\<close>: the language is \<open>fa\<close> when
  the read returns \<open>"fa"\<close> and \<open>en\<close> otherwise (\<open>"en"\<close>, another value, nothing, or an
  exception). \<open>setLang\<close> always sets the language, and a change writes the new value
  under the same key. With the logged store: the calls of a mount are one \<open>getItem\<close>,
  then \<open>setItem\<close> of \<open>"en"\<close>, then \<open>setItem\<close> of \<open>"fa"\<close> when that was stored; a change
  makes one \<open>setItem\<close> and no \<open>getItem\<close>; when access is denied every call throws,
  nothing is stored, and the page has its language all the same.
\<close>

theorem language_preference:
  "lang (mount S s)
     = (case fst (getItem S ''wedding_lang'' s) of
          Inr (Some v) \<Rightarrow> if v = ''fa'' then Fa else En
        | _ \<Rightarrow> En)
   \<and> (fst (getItem S ''wedding_lang'' s) = Inl e \<longrightarrow> lang (mount S s) = En)
   \<and> lang (setLang S l p) = l
   \<and> (l \<noteq> lang p \<longrightarrow>
        store (setLang S l p) = snd (setItem S ''wedding_lang'' (lang_string l) (store p)))
   \<and> calls (store (mount localStorage t))
       = calls t @ [GetItem ''wedding_lang'', SetItem ''wedding_lang'' ''en'']
         @ (if \<not> denied t \<and> map_of (items t) ''wedding_lang'' = Some ''fa''
            then [SetItem ''wedding_lang'' ''fa''] else [])
   \<and> calls (store (setLang localStorage l q))
       = calls (store q) @ (if l = lang q then [] else [SetItem ''wedding_lang'' (lang_string l)])
   \<and> (\<not> denied (store q) \<longrightarrow> l \<noteq> lang q \<longrightarrow>
        map_of (items (store (setLang localStorage l q))) ''wedding_lang'' = Some (lang_string l))
   \<and> (denied t \<longrightarrow> lang (mount localStorage t) = En \<and> items (store (mount localStorage t)) = items t)
   \<and> (denied (store q) \<longrightarrow> items (store (setLang localStorage l q)) = items (store q))"
proof -
  have a: "lang (mount S s)
     = (case fst (getItem S ''wedding_lang'' s) of
          Inr (Some v) \<Rightarrow> if v = ''fa'' then Fa else En
        | _ \<Rightarrow> En)"
    by (auto simp: mount_def read_effect_def split: prod.splits sum.splits option.splits Lang.splits)
  have b: "lang (setLang S l p) = l"
    by (simp add: setLang_def)
  have c: "store (setLang S l p) = snd (setItem S ''wedding_lang'' (lang_string l) (store p))"
    if "l \<noteq> lang p"
    using that by (simp add: setLang_def write_effect_def)
  have d: "calls (store (mount localStorage t))
       = calls t @ [GetItem ''wedding_lang'', SetItem ''wedding_lang'' ''en'']
         @ (if \<not> denied t \<and> map_of (items t) ''wedding_lang'' = Some ''fa''
            then [SetItem ''wedding_lang'' ''fa''] else [])"
    by (simp add: mount_def read_effect_def write_effect_def localStorage_def)
  have e: "calls (store (setLang localStorage l q))
       = calls (store q) @ (if l = lang q then [] else [SetItem ''wedding_lang'' (lang_string l)])"
    by (simp add: setLang_def write_effect_def localStorage_def)
  have f: "map_of (items (store (setLang localStorage l q))) ''wedding_lang'' = Some (lang_string l)"
    if "\<not> denied (store q)" "l \<noteq> lang q"
    using that by (simp add: setLang_def write_effect_def localStorage_def)
  have g: "lang (mount localStorage t) = En \<and> items (store (mount localStorage t)) = items t"
    if "denied t"
    using that by (simp add: mount_def read_effect_def write_effect_def localStorage_def)
  have h: "items (store (setLang localStorage l q)) = items (store q)" if "denied (store q)"
    using that by (simp add: setLang_def write_effect_def localStorage_def)
  from a b c d e f g h show ?thesis
    by (simp split: sum.splits)
qed

theorem language_preference_witness:
  "lang (mount localStorage \<lparr>items = [], denied = False, calls = []\<rparr>) = En
   \<and> lang (toggle localStorage (mount localStorage \<lparr>items = [], denied = False, calls = []\<rparr>)) = Fa
   \<and> lang (mount localStorage
        (store (toggle localStorage (mount localStorage \<lparr>items = [], denied = False, calls = []\<rparr>))))
       = Fa
   \<and> calls (store (mount localStorage \<lparr>items = [(''wedding_lang'', ''fa'')], denied = False, calls = []\<rparr>))
       = [GetItem ''wedding_lang'', SetItem ''wedding_lang'' ''en'', SetItem ''wedding_lang'' ''fa'']
   \<and> lang (mount localStorage \<lparr>items = [(''wedding_lang'', ''fa'')], denied = True, calls = []\<rparr>) = En
   \<and> lang (mount localStorage \<lparr>items = [(''wedding_lang'', ''de'')], denied = False, calls = []\<rparr>) = En"
proof -
  let ?t = "\<lparr>items = [], denied = False, calls = []\<rparr>"
  let ?fa = "\<lparr>items = [(''wedding_lang'', ''fa'')], denied = False, calls = []\<rparr>"
  let ?no = "\<lparr>items = [(''wedding_lang'', ''fa'')], denied = True, calls = []\<rparr>"
  let ?de = "\<lparr>items = [(''wedding_lang'', ''de'')], denied = False, calls = []\<rparr>"
  let ?p = "mount localStorage ?t"
  let ?q = "toggle localStorage ?p"
  note T = language_preference [of localStorage ?t DOMException Fa ?p ?fa ?p]
  note U = language_preference [of localStorage "store ?q" DOMException Fa ?p ?no ?p]
  note V = language_preference [of localStorage ?de DOMException Fa ?p ?no ?p]
  have a: "lang ?p = En"
    using T [THEN conjunct1] by (simp add: localStorage_def)
  have b: "?q = setLang localStorage Fa ?p"
    using a by (simp add: toggle_def)
  have c: "lang ?q = Fa"
    unfolding b by (rule T [THEN conjunct2, THEN conjunct2, THEN conjunct1])
  have d: "\<not> denied (store ?p)"
    by (simp add: mount_def read_effect_def write_effect_def localStorage_def)
  have e: "map_of (items (store ?q)) ''wedding_lang'' = Some ''fa''"
    unfolding b
    using a d T [THEN conjunct2, THEN conjunct2, THEN conjunct2, THEN conjunct2, THEN conjunct2,
                 THEN conjunct2, THEN conjunct1]
    by simp
  have f: "\<not> denied (store ?q)"
    unfolding b using a d by (simp add: setLang_def write_effect_def localStorage_def)
  have g: "lang (mount localStorage (store ?q)) = Fa"
    using e f U [THEN conjunct1] by (simp add: localStorage_def)
  have h: "calls (store (mount localStorage ?fa))
       = [GetItem ''wedding_lang'', SetItem ''wedding_lang'' ''en'', SetItem ''wedding_lang'' ''fa'']"
    using T [THEN conjunct2, THEN conjunct2, THEN conjunct2, THEN conjunct2, THEN conjunct1]
    by simp
  have i: "lang (mount localStorage ?no) = En"
    using U [THEN conjunct2, THEN conjunct2, THEN conjunct2, THEN conjunct2, THEN conjunct2,
             THEN conjunct2, THEN conjunct2, THEN conjunct1]
    by simp
  have j: "lang (mount localStorage ?de) = En"
    using V [THEN conjunct1] by (simp add: localStorage_def)
  from a c g h i j show ?thesis
    by simp
qed

end
